theory Spec2Isabelle
  imports Complex_Main "HOL-Library.Multiset"
begin

section \<open>Python values used by the pod system\<close>

text \<open>
  The repository is Python. Integers are unbounded (\<open>int\<close>); \<open>//\<close> and \<open>%\<close> are floor
  division and the remainder with the divisor's sign, which is what \<open>div\<close> and \<open>mod\<close> on
  \<open>int\<close> compute, except that Python raises \<open>ZeroDivisionError\<close> for a zero divisor.
  A call either returns, raises, or does not come back; the result type of a function that
  can do all three is \<open>(py_error + 'a) option\<close>, with \<open>None\<close> for a loop that runs forever.
\<close>

datatype py_error = ZeroDivisionError | ValueError

text \<open>
  \<open>xs[lo:hi]\<close> and \<open>xs[lo:]\<close> for integer bounds: a negative bound counts from the end,
  and both bounds are cut to the list.
\<close>

definition py_bound :: "'a list \<Rightarrow> int \<Rightarrow> nat" where
  "py_bound xs b =
     (let n = int (length xs) in nat (if b < 0 then max 0 (b + n) else min b n))"

definition py_slice :: "'a list \<Rightarrow> int \<Rightarrow> int \<Rightarrow> 'a list" where
  "py_slice xs lo hi = take (py_bound xs hi - py_bound xs lo) (drop (py_bound xs lo) xs)"

definition py_slice_from :: "'a list \<Rightarrow> int \<Rightarrow> 'a list" where
  "py_slice_from xs lo = drop (py_bound xs lo) xs"

section \<open>core/pod\_randomizer.py\<close>

text \<open>
  The dataclass \<open>Pod\<close> has the fields \<open>id\<close>, \<open>players\<close> and \<open>size\<close>. The record
  fields carry a \<open>p\<close> in front, since \<open>id\<close> and \<open>size\<close> are constants of HOL and
  \<open>players\<close> is the name of a parameter of every function below.
\<close>

record pod =
  pid :: int
  pplayers :: "string list"
  psize :: int

subsection \<open>The balanced search of \<open>_calculate_pod_distribution\<close>\<close>

text \<open>
  The inner loop \<open>for i in range(num_pods)\<close>, over the list of the values of \<open>i\<close>; its
  state is the pair \<open>(current_pods, current_index)\<close>.
\<close>

fun build_pods ::
  "string list \<Rightarrow> int \<Rightarrow> int \<Rightarrow> int \<Rightarrow> int list \<Rightarrow> pod list \<times> int \<Rightarrow> pod list \<times> int"
where
  "build_pods players max_size base_size remainder [] st = st"
| "build_pods players max_size base_size remainder (i # is) (current_pods, current_index) =
     (let pod_size = base_size + (if i < remainder then 1 else 0) in
      if pod_size = 0 then
        build_pods players max_size base_size remainder is (current_pods, current_index)
      else
        let pod_size = max 3 (min pod_size max_size);
            pod_players = py_slice players current_index (current_index + pod_size)
        in build_pods players max_size base_size remainder is
             (current_pods @ [\<lparr>pid = i + 1, pplayers = pod_players,
                                psize = int (length pod_players)\<rparr>],
              current_index + pod_size))"

text \<open>
  The body of the outer loop for one candidate \<open>num_pods \<noteq> 0\<close>: the pods built and the
  final value of \<open>current_index\<close>.
\<close>

definition candidate :: "string list \<Rightarrow> int \<Rightarrow> int \<Rightarrow> pod list \<times> int" where
  "candidate players max_size num_pods =
     (let total_players = int (length players);
          base_size = total_players div num_pods;
          remainder = total_players mod num_pods
      in build_pods players max_size base_size remainder [0..num_pods - 1] ([], 0))"

text \<open>
  The outer loop \<open>for num_pods in range(min_pods, max_pods + 1)\<close>, over the list of the
  candidates. The result is the value of \<open>pods\<close> after the loop: the pods of the first
  candidate with \<open>current_index >= total_players\<close>, and \<open>[]\<close> when the loop ends
  without a \<open>break\<close>.
\<close>

fun try_counts :: "string list \<Rightarrow> int \<Rightarrow> int list \<Rightarrow> pod list" where
  "try_counts players max_size [] = []"
| "try_counts players max_size (num_pods # rest) =
     (if num_pods = 0 then try_counts players max_size rest
      else if snd (candidate players max_size num_pods) \<ge> int (length players)
           then fst (candidate players max_size num_pods)
           else try_counts players max_size rest)"

subsection \<open>\<open>_simple_distribution\<close>\<close>

text \<open>
  The \<open>while\<close> loop, with its state \<open>(pods, pod_id, i)\<close>. For a \<open>target_size\<close> below 1
  the index \<open>i\<close> does not advance and the loop need not end, so the function is partial.
\<close>

definition new_pod :: "string list \<Rightarrow> int \<Rightarrow> int \<Rightarrow> int \<Rightarrow> pod" where
  "new_pod players pod_id i pod_size =
     (let pod_players = py_slice players i (i + pod_size)
      in \<lparr>pid = pod_id, pplayers = pod_players, psize = int (length pod_players)\<rparr>)"

definition extend_last :: "pod list \<Rightarrow> string list \<Rightarrow> pod list" where
  "extend_last pods new_players =
     (let merged = pplayers (last pods) @ new_players
      in butlast pods @ [(last pods)\<lparr>pplayers := merged, psize := int (length merged)\<rparr>])"

partial_function (option) simple_loop ::
  "string list \<Rightarrow> int \<Rightarrow> int \<Rightarrow> pod list \<Rightarrow> int \<Rightarrow> int \<Rightarrow> pod list option"
where
  "simple_loop players target_size max_size pods pod_id i =
     (if i < int (length players) then
        (let remaining_players = int (length players) - i;
             pod_size = min target_size remaining_players
         in if remaining_players < 3 \<and> pods \<noteq> [] then
              if int (length (pplayers (last pods))) + remaining_players \<le> max_size then
                Some (extend_last pods (py_slice_from players i))
              else
                (let pod_size = (if remaining_players > 0 then remaining_players else pod_size)
                 in simple_loop players target_size max_size
                      (pods @ [new_pod players pod_id i pod_size]) (pod_id + 1) (i + pod_size))
            else
              simple_loop players target_size max_size
                (pods @ [new_pod players pod_id i pod_size]) (pod_id + 1) (i + pod_size))
      else Some pods)"

definition simple_distribution :: "string list \<Rightarrow> int \<Rightarrow> int \<Rightarrow> pod list option" where
  "simple_distribution players target_size max_size =
     simple_loop players target_size max_size [] 1 0"

subsection \<open>\<open>_calculate_pod_distribution\<close> and \<open>create_pods\<close>\<close>

definition calculate_pod_distribution ::
  "string list \<Rightarrow> int \<Rightarrow> int \<Rightarrow> (py_error + pod list) option"
where
  "calculate_pod_distribution players target_size max_size =
     (let total_players = int (length players) in
      if max_size = 0 then Some (Inl ZeroDivisionError)
      else
        let min_pods = (total_players + max_size - 1) div max_size in
        if target_size = 0 then Some (Inl ZeroDivisionError)
        else
          let max_pods = (total_players + target_size - 1) div target_size;
              pods = try_counts players max_size [min_pods..max_pods]
          in if pods = [] then map_option Inr (simple_distribution players target_size max_size)
             else Some (Inr pods))"

text \<open>
  \<open>random.shuffle\<close> is the parameter \<open>shuffle\<close>; what is known of it is that its result is
  a permutation of its argument. \<open>self.history\<close> is passed in and returned.
\<close>

definition create_pods ::
  "(string list \<Rightarrow> string list) \<Rightarrow> pod list list \<Rightarrow> string list \<Rightarrow> int \<Rightarrow> int \<Rightarrow>
   (py_error + pod list \<times> pod list list) option"
where
  "create_pods shuffle history players target_size max_size =
     (if players = [] then Some (Inr ([], history))
      else
        let target_size = max 3 (min target_size max_size);
            shuffled_players = shuffle players
        in case calculate_pod_distribution shuffled_players target_size max_size of
             None \<Rightarrow> None
           | Some (Inl e) \<Rightarrow> Some (Inl e)
           | Some (Inr pods) \<Rightarrow> Some (Inr (pods, history @ [pods])))"

subsection \<open>\<open>get_statistics\<close>\<close>

text \<open>
  The dictionary returned has the keys \<open>total_pods\<close>, \<open>total_players\<close> and
  \<open>avg_pod_size\<close> always, and \<open>min_pod_size\<close>, \<open>max_pod_size\<close> and \<open>pod_sizes\<close> only
  for a non-empty pod list: the optional fields are \<open>None\<close> where the key is absent. The
  local variables \<open>total_players\<close> and \<open>pod_sizes\<close> of the source are \<open>total\<close> and \<open>sizes\<close>
  here, the names being taken by the fields.
  \<open>total_players / len(pods)\<close> is Python's true division of two integers, which raises
  \<open>ZeroDivisionError\<close> for a zero divisor; the model keeps the exact quotient as a real
  number. \<open>min\<close> and \<open>max\<close> of an empty list raise \<open>ValueError\<close>.
\<close>

record statistics =
  total_pods :: int
  total_players :: int
  avg_pod_size :: real
  min_pod_size :: "int option"
  max_pod_size :: "int option"
  pod_sizes :: "int list option"

definition py_truediv :: "int \<Rightarrow> int \<Rightarrow> py_error + real" where
  "py_truediv a b = (if b = 0 then Inl ZeroDivisionError else Inr (real_of_int a / real_of_int b))"

fun py_min :: "int list \<Rightarrow> py_error + int" where
  "py_min [] = Inl ValueError"
| "py_min (x # xs) = Inr (fold min xs x)"

fun py_max :: "int list \<Rightarrow> py_error + int" where
  "py_max [] = Inl ValueError"
| "py_max (x # xs) = Inr (fold max xs x)"

definition get_statistics :: "pod list \<Rightarrow> py_error + statistics" where
  "get_statistics pods =
     (if pods = [] then
        Inr \<lparr>total_pods = 0, total_players = 0, avg_pod_size = 0,
             min_pod_size = None, max_pod_size = None, pod_sizes = None\<rparr>
      else
        let total = sum_list (map psize pods);
            sizes = map psize pods
        in case py_truediv total (int (length pods)) of
             Inl e \<Rightarrow> Inl e
           | Inr avg \<Rightarrow>
               (case py_min sizes of
                  Inl e \<Rightarrow> Inl e
                | Inr least \<Rightarrow>
                    (case py_max sizes of
                       Inl e \<Rightarrow> Inl e
                     | Inr greatest \<Rightarrow>
                         Inr \<lparr>total_pods = int (length pods), total_players = total,
                              avg_pod_size = avg,
                              min_pod_size = Some least, max_pod_size = Some greatest,
                              pod_sizes = Some sizes\<rparr>)))"

subsection \<open>The history of the randomizer as objects in a store\<close>

text \<open>
  \<open>self.history\<close> is a list object whose elements are references to the pod lists that
  \<open>create_pods\<close> appended; a pod list holds references to \<open>Pod\<close> objects, and a \<open>Pod\<close>
  holds a reference to its list of names. Who can change what depends on this sharing, so
  the objects live in a store: an address is an index into the list of objects, and a new
  object goes to the end.
\<close>

type_synonym addr = nat

datatype obj =
    StrList "string list"
  | RefList "addr list"
  | PodObj int addr int

type_synonym store = "obj list"

definition lookup :: "store \<Rightarrow> addr \<Rightarrow> obj option" where
  "lookup s a = (if a < length s then Some (s ! a) else None)"

definition alloc :: "store \<Rightarrow> obj \<Rightarrow> addr \<times> store" where
  "alloc s ob = (length s, s @ [ob])"

text \<open>\<open>list.copy()\<close>: a new list object with the same elements (the references, not copies of
  what they point to).\<close>

definition list_copy :: "store \<Rightarrow> addr \<Rightarrow> (addr \<times> store) option" where
  "list_copy s a = (case lookup s a of Some (RefList refs) \<Rightarrow> Some (alloc s (RefList refs)) | _ \<Rightarrow> None)"

text \<open>\<open>get_history\<close> is \<open>return self.history.copy()\<close>; \<open>history\<close> is the address held in
  \<open>self.history\<close>.\<close>

definition get_history :: "store \<Rightarrow> addr \<Rightarrow> (addr \<times> store) option" where
  "get_history s history = list_copy s history"

text \<open>What a caller can do with a reference to a list: replace its content (\<open>append\<close>,
  \<open>clear\<close>, \<open>del\<close>, item assignment are all of this form) and read an element.\<close>

definition list_assign :: "store \<Rightarrow> addr \<Rightarrow> addr list \<Rightarrow> store" where
  "list_assign s a refs = (if a < length s then s[a := RefList refs] else s)"

definition list_clear :: "store \<Rightarrow> addr \<Rightarrow> store" where
  "list_clear s a = list_assign s a []"

definition list_item :: "store \<Rightarrow> addr \<Rightarrow> nat \<Rightarrow> addr option" where
  "list_item s a k =
     (case lookup s a of
        Some (RefList refs) \<Rightarrow> (if k < length refs then Some (refs ! k) else None)
      | _ \<Rightarrow> None)"

text \<open>The value a reference denotes, read through the store: a pod, a pod list, the whole
  log. \<open>None\<close> when a reference does not lead to an object of the expected class.\<close>

definition read_pod :: "store \<Rightarrow> addr \<Rightarrow> pod option" where
  "read_pod s a =
     (case lookup s a of
        Some (PodObj i names sz) \<Rightarrow>
          (case lookup s names of
             Some (StrList ns) \<Rightarrow> Some \<lparr>pid = i, pplayers = ns, psize = sz\<rparr>
           | _ \<Rightarrow> None)
      | _ \<Rightarrow> None)"

definition read_pods :: "store \<Rightarrow> addr \<Rightarrow> pod list option" where
  "read_pods s a =
     (case lookup s a of Some (RefList refs) \<Rightarrow> those (map (read_pod s) refs) | _ \<Rightarrow> None)"

definition read_history :: "store \<Rightarrow> addr \<Rightarrow> pod list list option" where
  "read_history s a =
     (case lookup s a of Some (RefList refs) \<Rightarrow> those (map (read_pods s) refs) | _ \<Rightarrow> None)"

text \<open>A store with one assignment in the log: the names at 0, the \<open>Pod\<close> at 1, the pod
  list that \<open>create_pods\<close> returned at 2, and \<open>self.history\<close> at 3.\<close>

definition history_example :: store where
  "history_example =
     [StrList [''ann'', ''bob'', ''cy''], PodObj 1 0 3, RefList [1], RefList [2]]"

section \<open>interfaces/terminal\_app.py: \<open>save_to_history\<close>\<close>

text \<open>
  The persisted history is the list that \<open>load_history\<close> reads and \<open>save_history\<close> writes;
  \<open>save_to_history\<close> takes the stored list to the list it stores. \<open>max_items\<close> is
  \<open>config['max_history_items']\<close>, \<open>now\<close> the timestamp. An entry is the dictionary with
  the keys \<open>timestamp\<close> and \<open>pods\<close> (the field \<open>pods_of\<close>); each of its pods is a
  dictionary of the three fields of a \<open>Pod\<close>, and is a \<open>pod\<close> here.
\<close>

record history_entry =
  timestamp :: string
  pods_of :: "pod list"

definition save_to_history :: "int \<Rightarrow> history_entry list \<Rightarrow> string \<Rightarrow> pod list \<Rightarrow> history_entry list" where
  "save_to_history max_items stored now pods =
     (let history_entry = \<lparr>timestamp = now, pods_of = pods\<rparr>;
          history = stored @ [history_entry]
      in if int (length history) > max_items then py_slice_from history (- max_items)
         else history)"

text \<open>A run of calls of \<open>save_to_history\<close>, one for each pair of a timestamp and a pod
  list.\<close>

fun save_all :: "int \<Rightarrow> history_entry list \<Rightarrow> (string \<times> pod list) list \<Rightarrow> history_entry list" where
  "save_all max_items stored [] = stored"
| "save_all max_items stored ((now, pods) # rest) =
     save_all max_items (save_to_history max_items stored now pods) rest"

text \<open>The \<open>size\<close> field of every pod is the length of its \<open>players\<close>.\<close>

definition well_sized :: "pod list \<Rightarrow> bool" where
  "well_sized pods = (\<forall>p\<in>set pods. psize p = int (length (pplayers p)))"

section \<open>Slices and the loop invariants\<close>

lemma py_bound_nonneg: "0 \<le> b \<Longrightarrow> py_bound xs b = min (nat b) (length xs)"
  by (auto simp: py_bound_def Let_def min_def nat_le_iff le_nat_iff)

lemma py_slice_nonneg:
  "0 \<le> lo \<Longrightarrow> lo \<le> hi \<Longrightarrow> py_slice xs lo hi = take (nat (hi - lo)) (drop (nat lo) xs)"
  by (auto simp: py_slice_def py_bound_nonneg min_def nat_diff_distrib)

lemma py_slice_from_nonneg: "0 \<le> lo \<Longrightarrow> py_slice_from xs lo = drop (nat lo) xs"
  by (auto simp: py_slice_from_def py_bound_nonneg min_def)

lemma take_slice:
  "0 \<le> i \<Longrightarrow> 0 \<le> n \<Longrightarrow> take (nat i) xs @ py_slice xs i (i + n) = take (nat (i + n)) xs"
  by (simp add: py_slice_nonneg nat_add_distrib take_add)


lemma build_pods_inv:
  "0 \<le> ci \<Longrightarrow> concat (map pplayers cp) = take (nat ci) players \<Longrightarrow>
   build_pods players m b r is (cp, ci) = (cp', ci') \<Longrightarrow>
   concat (map pplayers cp') = take (nat ci') players \<and> ci \<le> ci'"
proof (induction "is" arbitrary: cp ci)
  case Nil
  then show ?case by simp
next
  case (Cons i "is")
  show ?case
  proof (cases "b + (if i < r then 1 else 0) = 0")
    case True
    with Cons.prems have "build_pods players m b r is (cp, ci) = (cp', ci')"
      by (simp add: Let_def)
    from Cons.IH[OF Cons.prems(1,2) this] show ?thesis .
  next
    case False
    define s where "s = max 3 (min (b + (if i < r then 1 else 0)) m)"
    define p where "p = \<lparr>pid = i + 1, pplayers = py_slice players ci (ci + s),
                          psize = int (length (py_slice players ci (ci + s)))\<rparr>"
    have s3: "3 \<le> s" by (simp add: s_def)
    from False Cons.prems(3) have run: "build_pods players m b r is (cp @ [p], ci + s) = (cp', ci')"
      by (simp add: Let_def s_def p_def)
    have "concat (map pplayers (cp @ [p])) = take (nat (ci + s)) players"
      using Cons.prems(1,2) s3 by (simp add: p_def take_slice)
    moreover have "0 \<le> ci + s" using Cons.prems(1) s3 by simp
    ultimately have "concat (map pplayers cp') = take (nat ci') players \<and> ci + s \<le> ci'"
      using Cons.IH run by blast
    then show ?thesis using s3 by simp
  qed
qed

lemma well_sized_snoc:
  "well_sized (pods @ [p]) \<longleftrightarrow> well_sized pods \<and> psize p = int (length (pplayers p))"
  by (auto simp: well_sized_def)

lemma build_pods_well_sized:
  "well_sized cp \<Longrightarrow> well_sized (fst (build_pods players m b r is (cp, ci)))"
proof (induction "is" arbitrary: cp ci)
  case Nil
  then show ?case by simp
next
  case (Cons i "is")
  show ?case
  proof (cases "b + (if i < r then 1 else 0) = 0")
    case True
    then show ?thesis using Cons.IH[OF Cons.prems] by (simp add: Let_def)
  next
    case False
    then show ?thesis using Cons.prems
      by (simp add: Let_def Cons.IH well_sized_snoc)
  qed
qed

lemma candidate_concat:
  "concat (map pplayers (fst (candidate players m k))) = take (nat (snd (candidate players m k))) players
   \<and> 0 \<le> snd (candidate players m k)"
proof -
  obtain cp' ci' where c: "candidate players m k = (cp', ci')" by (cases "candidate players m k")
  then have "build_pods players m (int (length players) div k) (int (length players) mod k) [0..k - 1] ([], 0) = (cp', ci')"
    by (simp add: candidate_def Let_def)
  from build_pods_inv[OF _ _ this] c show ?thesis by simp
qed

lemma candidate_accept_iff:
  "int (length players) \<le> snd (candidate players m k) \<longleftrightarrow>
   concat (map pplayers (fst (candidate players m k))) = players"
proof -
  have c: "concat (map pplayers (fst (candidate players m k))) = take (nat (snd (candidate players m k))) players"
    and n: "0 \<le> snd (candidate players m k)" using candidate_concat by auto
  show ?thesis
  proof
    assume "int (length players) \<le> snd (candidate players m k)"
    then show "concat (map pplayers (fst (candidate players m k))) = players"
      using c by simp
  next
    assume "concat (map pplayers (fst (candidate players m k))) = players"
    then have "take (nat (snd (candidate players m k))) players = players" using c by simp
    then have "length players \<le> nat (snd (candidate players m k))"
      by (metis length_take min.absorb_iff1)
    then show "int (length players) \<le> snd (candidate players m k)" using n by linarith
  qed
qed

lemma well_sized_candidate: "well_sized (fst (candidate players m k))"
  unfolding candidate_def Let_def by (rule build_pods_well_sized) (simp add: well_sized_def)

lemma pplayers_new_pod [simp]: "pplayers (new_pod players pod_id i s) = py_slice players i (i + s)"
  by (simp add: new_pod_def Let_def)

lemma well_sized_new_pod: "well_sized pods \<Longrightarrow> well_sized (pods @ [new_pod players pod_id i s])"
  by (simp add: well_sized_snoc new_pod_def Let_def)

lemma concat_extend_last:
  assumes "pods \<noteq> []"
  shows "concat (map pplayers (extend_last pods xs)) = concat (map pplayers pods) @ xs"
proof -
  have "concat (map pplayers (butlast pods @ [last pods])) = concat (map pplayers pods)"
    using assms by simp
  then show ?thesis by (simp add: extend_last_def Let_def)
qed

lemma well_sized_extend_last:
  assumes "well_sized pods"
  shows "well_sized (extend_last pods xs)"
proof -
  have "set (butlast pods) \<subseteq> set pods" by (auto dest: in_set_butlastD)
  then show ?thesis using assms by (auto simp: extend_last_def Let_def well_sized_def)
qed

lemma simple_loop_returns:
  assumes t: "1 \<le> target_size"
  shows "0 \<le> i \<Longrightarrow> i \<le> int (length players) \<Longrightarrow>
         concat (map pplayers pods) = take (nat i) players \<Longrightarrow> well_sized pods \<Longrightarrow>
         \<exists>r. simple_loop players target_size max_size pods pod_id i = Some r \<and>
             concat (map pplayers r) = players \<and> well_sized r"
proof (induction "nat (int (length players) - i)" arbitrary: pods pod_id i rule: less_induct)
  case less
  let ?n = "int (length players)"
  show ?case
  proof (cases "i < ?n")
    case False
    with less.prems have "i = ?n" by simp
    with less.prems show ?thesis by (subst simple_loop.simps) simp
  next
    case True
    define rem where "rem = ?n - i"
    have rem: "1 \<le> rem" "rem = ?n - i" using True by (simp_all add: rem_def)
    have step: "\<exists>r. simple_loop players target_size max_size
                     (pods @ [new_pod players pod_id i s]) (pod_id + 1) (i + s) = Some r \<and>
                   concat (map pplayers r) = players \<and> well_sized r"
      if s: "1 \<le> s" "s \<le> rem" for s
    proof (rule less.hyps)
      show "nat (?n - (i + s)) < nat (?n - i)" using s True by simp
      show "0 \<le> i + s" using s less.prems by simp
      show "i + s \<le> ?n" using s rem by simp
      show "concat (map pplayers (pods @ [new_pod players pod_id i s])) = take (nat (i + s)) players"
        using less.prems s by (simp add: take_slice)
      show "well_sized (pods @ [new_pod players pod_id i s])"
        using less.prems by (simp add: well_sized_new_pod)
    qed
    have m1: "1 \<le> min target_size rem" "min target_size rem \<le> rem" using t rem by simp_all
    show ?thesis
    proof (cases "rem < 3 \<and> pods \<noteq> []")
      case False
      then show ?thesis using True step[OF m1]
        by (subst simple_loop.simps) (auto simp: Let_def rem_def)
    next
      case small: True
      show ?thesis
      proof (cases "int (length (pplayers (last pods))) + rem \<le> max_size")
        case True
        have "concat (map pplayers (extend_last pods (py_slice_from players i))) = players"
          using small less.prems by (simp add: concat_extend_last py_slice_from_nonneg)
        moreover have "well_sized (extend_last pods (py_slice_from players i))"
          using less.prems by (simp add: well_sized_extend_last)
        ultimately show ?thesis using small True \<open>i < ?n\<close>
          by (subst simple_loop.simps) (simp add: Let_def rem_def)
      next
        case False
        have "1 \<le> rem" "rem \<le> rem" using rem by simp_all
        from step[OF this] show ?thesis using small False \<open>i < ?n\<close> rem
          by (subst simple_loop.simps) (simp add: Let_def rem_def)
      qed
    qed
  qed
qed

lemma simple_distribution_returns:
  assumes "1 \<le> target_size"
  shows "\<exists>r. simple_distribution players target_size max_size = Some r \<and>
             concat (map pplayers r) = players \<and> well_sized r"
  unfolding simple_distribution_def
  by (rule simple_loop_returns[OF assms]) (simp_all add: well_sized_def)

lemma try_counts_find:
  "try_counts players max_size ks =
     (case List.find (\<lambda>k. k \<noteq> 0 \<and> int (length players) \<le> snd (candidate players max_size k)) ks of
        None \<Rightarrow> [] | Some k \<Rightarrow> fst (candidate players max_size k))"
  by (induction ks) simp_all

lemma try_counts_conserves:
  assumes "try_counts players max_size ks \<noteq> []"
  shows "concat (map pplayers (try_counts players max_size ks)) = players \<and>
         well_sized (try_counts players max_size ks)"
  using assms
proof (induction ks)
  case Nil
  then show ?case by simp
next
  case (Cons k ks)
  then show ?case
    by (auto simp: candidate_accept_iff well_sized_candidate split: if_splits)
qed

lemma calculate_conserves:
  assumes "max_size \<noteq> 0" and "1 \<le> target_size"
  shows "\<exists>r. calculate_pod_distribution players target_size max_size = Some (Inr r) \<and>
             concat (map pplayers r) = players \<and> well_sized r"
proof -
  let ?n = "int (length players)"
  let ?ks = "[(?n + max_size - 1) div max_size..(?n + target_size - 1) div target_size]"
  show ?thesis
  proof (cases "try_counts players max_size ?ks = []")
    case True
    obtain r where "simple_distribution players target_size max_size = Some r"
      "concat (map pplayers r) = players" "well_sized r"
      using simple_distribution_returns[OF assms(2)] by blast
    then show ?thesis using True assms
      by (simp add: calculate_pod_distribution_def Let_def)
  next
    case False
    then show ?thesis using assms try_counts_conserves[OF False]
      by (simp add: calculate_pod_distribution_def Let_def)
  qed
qed


section \<open>The first candidate of the balanced search\<close>

lemma ceil_div_facts:
  fixes n m :: int
  assumes "1 \<le> n" and "1 \<le> m"
  shows "1 \<le> (n + m - 1) div m" and "(n + m - 1) div m \<le> n" and "n \<le> (n + m - 1) div m * m"
proof -
  let ?k = "(n + m - 1) div m"
  have m0: "0 < m" using assms by simp
  have eq: "?k * m + (n + m - 1) mod m = n + m - 1" by simp
  have lt: "(n + m - 1) mod m < m" and ge: "0 \<le> (n + m - 1) mod m" using m0 by simp_all
  show c: "n \<le> ?k * m" using eq lt by linarith
  have "m * 1 \<le> n + m - 1" using assms by simp
  then have "(m * 1) div m \<le> (n + m - 1) div m" by (rule zdiv_mono1) (rule m0)
  then show "1 \<le> ?k" using m0 by simp
  have "n + m - 1 \<le> n * m"
  proof -
    have "0 \<le> (n - 1) * (m - 1)" using assms by simp
    then show ?thesis by (simp add: algebra_simps)
  qed
  then have "?k \<le> (n * m) div m" by (rule zdiv_mono1) (rule m0)
  then show "?k \<le> n" using m0 by simp
qed

lemma ceil_div_antimono:
  fixes n t m :: int
  assumes "1 \<le> n" and "1 \<le> t" and "t \<le> m"
  shows "(n + m - 1) div m \<le> (n + t - 1) div t"
proof -
  let ?q = "(n + t - 1) div t"
  have m0: "0 < m" using assms by simp
  have q: "1 \<le> ?q" "n \<le> ?q * t" using ceil_div_facts[OF assms(1,2)] by simp_all
  have "?q * t \<le> ?q * m" using q(1) assms(3) by (simp add: mult_left_mono)
  then have "n + m - 1 \<le> (m - 1) + ?q * m" using q(2) by simp
  then have "(n + m - 1) div m \<le> ((m - 1) + ?q * m) div m" by (rule zdiv_mono1) (rule m0)
  also have "\<dots> = ?q" using m0 by simp
  finally show ?thesis .
qed

lemma build_pods_index_ge:
  assumes "\<forall>i\<in>set is. b + (if i < r then 1 else 0) \<le> m"
  shows "ci + (\<Sum>i\<leftarrow>is. b + (if i < r then 1 else 0)) \<le> snd (build_pods players m b r is (cp, ci))"
  using assms
proof (induction "is" arbitrary: cp ci)
  case Nil
  then show ?case by simp
next
  case (Cons i "is")
  let ?raw = "b + (if i < r then 1 else 0)"
  have tl: "\<forall>i\<in>set is. b + (if i < r then 1 else 0) \<le> m" using Cons.prems by simp
  have hd: "?raw \<le> m" using Cons.prems by simp
  show ?case
  proof (cases "?raw = 0")
    case True
    have "ci + (\<Sum>i\<leftarrow>is. b + (if i < r then 1 else 0)) \<le> snd (build_pods players m b r is (cp, ci))"
      by (rule Cons.IH[OF tl])
    then show ?thesis using True by (simp add: Let_def)
  next
    case False
    define s where "s = max 3 (min ?raw m)"
    define p where "p = \<lparr>pid = i + 1, pplayers = py_slice players ci (ci + s),
                          psize = int (length (py_slice players ci (ci + s)))\<rparr>"
    have run: "build_pods players m b r (i # is) (cp, ci) = build_pods players m b r is (cp @ [p], ci + s)"
      using False by (simp add: Let_def s_def p_def)
    have "?raw \<le> s" using hd by (simp add: s_def)
    moreover have "ci + s + (\<Sum>i\<leftarrow>is. b + (if i < r then 1 else 0))
        \<le> snd (build_pods players m b r is (cp @ [p], ci + s))"
      by (rule Cons.IH[OF tl])
    ultimately show ?thesis unfolding run by simp
  qed
qed

lemma build_pods_length:
  assumes "\<forall>i\<in>set is. b + (if i < r then 1 else 0) \<noteq> 0"
  shows "length (fst (build_pods players m b r is (cp, ci))) = length cp + length is"
  using assms
proof (induction "is" arbitrary: cp ci)
  case Nil
  then show ?case by simp
next
  case (Cons i "is")
  then show ?case by (simp add: Let_def)
qed

lemma sum_balanced_sizes:
  assumes "0 \<le> r"
  shows "(\<Sum>i\<leftarrow>[0..int j - 1]. b + (if i < r then 1 else 0)) = int j * b + min r (int j)"
proof (induction j)
  case 0
  then show ?case using assms by simp
next
  case (Suc j)
  have "[0..int (Suc j) - 1] = [0..int j - 1] @ [int j]"
    using upto_rec2[of 0 "int j"] by simp
  then show ?case using Suc by (simp add: algebra_simps min_def)
qed

lemma candidate_first:
  assumes n: "players \<noteq> []" and m: "3 \<le> max_size"
  defines "k \<equiv> (int (length players) + max_size - 1) div max_size"
  shows "int (length players) \<le> snd (candidate players max_size k)"
    and "int (length (fst (candidate players max_size k))) = k"
proof -
  let ?n = "int (length players)"
  let ?b = "?n div k" and ?r = "?n mod k"
  have n1: "1 \<le> ?n" using n by (cases players) simp_all
  have k: "1 \<le> k" "k \<le> ?n" "?n \<le> k * max_size"
    unfolding k_def using ceil_div_facts[OF n1, of max_size] m by simp_all
  have r: "0 \<le> ?r" "?r < k" using k(1) by simp_all
  have split: "k * ?b + ?r = ?n" by simp
  have b1: "1 \<le> ?b" using zdiv_mono1[of k ?n k] k(1,2) by simp
  have bm: "?b + (if 0 < ?r then 1 else 0) \<le> max_size"
  proof (cases "0 < ?r")
    case True
    then have "k * ?b < k * max_size" using split k(3) by linarith
    then have "?b < max_size" using k(1) by (simp add: mult_less_cancel_left)
    then show ?thesis using True by simp
  next
    case False
    then have "k * ?b \<le> k * max_size" using split k(3) r by linarith
    then have "?b \<le> max_size" using k(1) by (simp add: mult_le_cancel_left)
    then show ?thesis using False by simp
  qed
  have le: "\<forall>i\<in>set [0..k - 1]. ?b + (if i < ?r then 1 else 0) \<le> max_size"
    using bm r by (auto split: if_splits)
  have nz: "\<forall>i\<in>set [0..k - 1]. ?b + (if i < ?r then 1 else 0) \<noteq> 0"
    using b1 by auto
  have "(\<Sum>i\<leftarrow>[0..k - 1]. ?b + (if i < ?r then 1 else 0)) = int (nat k) * ?b + min ?r (int (nat k))"
    using sum_balanced_sizes[OF r(1), where j = "nat k" and b = ?b] k(1) by simp
  also have "\<dots> = ?n" using k(1) r by (simp add: min_def)
  finally have sum: "(\<Sum>i\<leftarrow>[0..k - 1]. ?b + (if i < ?r then 1 else 0)) = ?n" .
  show "?n \<le> snd (candidate players max_size k)"
    using build_pods_index_ge[OF le, where ci = 0 and players = players and cp = "[]"] sum by (simp add: candidate_def Let_def)
  show "int (length (fst (candidate players max_size k))) = k"
    using build_pods_length[OF nz, where players = players and m = max_size and cp = "[]" and ci = 0] k(1)
    by (simp add: candidate_def Let_def)
qed

lemma find_upto_least:
  assumes "List.find P [a..b] = Some k"
  shows "a \<le> k \<and> k \<le> b \<and> P k \<and> (\<forall>k'. a \<le> k' \<and> k' < k \<longrightarrow> \<not> P k')"
proof -
  from assms obtain i where i: "i < length [a..b]" "P ([a..b] ! i)" "k = [a..b] ! i"
    "\<forall>j<i. \<not> P ([a..b] ! j)" by (auto simp: find_Some_iff)
  have ki: "k = a + int i" using i(1,3) by simp
  have "k \<in> set [a..b]" using i(1,3) by simp
  then have range: "a \<le> k" "k \<le> b" by simp_all
  have "\<not> P k'" if "a \<le> k'" "k' < k" for k'
  proof -
    have "nat (k' - a) < i" using that ki by simp
    moreover have "[a..b] ! nat (k' - a) = k'" using that range by simp
    ultimately show ?thesis using i(4) by metis
  qed
  then show ?thesis using range i(2,3) by blast
qed


lemma simple_loop_done:
  "int (length players) \<le> i \<Longrightarrow> simple_loop players target_size max_size pods pod_id i = Some pods"
  by (subst simple_loop.simps) simp

text \<open>
  What the outer loop computes for a non-empty list: the pods of the first candidate, in
  ascending order through the range, that is not 0 and whose final \<open>current_index\<close> has
  reached the number of players; with no such candidate, the sequential distribution.
\<close>

lemma search_first_reaching:
  assumes "players \<noteq> []" and "3 \<le> target_size" and "max_size \<noteq> 0"
  shows "calculate_pod_distribution players target_size max_size =
           (case List.find (\<lambda>k. k \<noteq> 0 \<and> int (length players) \<le> snd (candidate players max_size k))
                   [(int (length players) + max_size - 1) div max_size..
                    (int (length players) + target_size - 1) div target_size] of
              None \<Rightarrow> map_option Inr (simple_distribution players target_size max_size)
            | Some k \<Rightarrow> Some (Inr (fst (candidate players max_size k))))"
proof -
  let ?n = "int (length players)"
  let ?P = "\<lambda>k. k \<noteq> 0 \<and> ?n \<le> snd (candidate players max_size k)"
  let ?ks = "[(?n + max_size - 1) div max_size..(?n + target_size - 1) div target_size]"
  note tc = try_counts_find[of players max_size ?ks]
  show ?thesis
  proof (cases "List.find ?P ?ks")
    case None
    then show ?thesis using assms tc by (simp add: calculate_pod_distribution_def Let_def)
  next
    case (Some k)
    then have "?n \<le> snd (candidate players max_size k)" using find_upto_least[of ?P] by blast
    then have "concat (map pplayers (fst (candidate players max_size k))) = players"
      by (simp add: candidate_accept_iff)
    then have "fst (candidate players max_size k) \<noteq> []" using assms(1) by auto
    then show ?thesis using Some assms tc by (simp add: calculate_pod_distribution_def Let_def)
  qed
qed

section \<open>Statistics, the store and the persisted history: auxiliary facts\<close>

lemma py_min_Min: "xs \<noteq> [] \<Longrightarrow> py_min xs = Inr (Min (set xs))"
  by (cases xs) (simp_all add: Min.set_eq_fold[symmetric])

lemma py_max_Max: "xs \<noteq> [] \<Longrightarrow> py_max xs = Inr (Max (set xs))"
  by (cases xs) (simp_all add: Max.set_eq_fold[symmetric])

lemma lookup_Some_lt: "lookup s a = Some ob \<Longrightarrow> a < length s"
  by (simp add: lookup_def split: if_splits)

lemma read_pod_frame:
  assumes ext: "\<And>a. a < length s \<Longrightarrow> lookup s' a = lookup s a"
    and rd: "read_pod s a = Some p"
  shows "read_pod s' a = Some p"
proof -
  from rd obtain i names sz ns where
    a: "lookup s a = Some (PodObj i names sz)" and n: "lookup s names = Some (StrList ns)"
    and p: "p = \<lparr>pid = i, pplayers = ns, psize = sz\<rparr>"
    by (auto simp: read_pod_def split: option.splits obj.splits)
  have "lookup s' a = Some (PodObj i names sz)" "lookup s' names = Some (StrList ns)"
    using a n ext lookup_Some_lt by metis+
  then show ?thesis by (simp add: read_pod_def p)
qed

lemma those_map_frame:
  assumes "\<And>x y. x \<in> set xs \<Longrightarrow> f x = Some y \<Longrightarrow> g x = Some y"
    and "those (map f xs) = Some ys"
  shows "those (map g xs) = Some ys"
  using assms
proof (induction xs arbitrary: ys)
  case Nil
  then show ?case by simp
next
  case (Cons x xs)
  from Cons.prems(2) obtain y zs where y: "f x = Some y" and zs: "those (map f xs) = Some zs"
    and ys: "ys = y # zs" by (auto split: option.splits)
  have "g x = Some y" using Cons.prems(1) y by simp
  moreover have "those (map g xs) = Some zs" using Cons.IH Cons.prems(1) zs by simp
  ultimately show ?case by (simp add: ys)
qed

lemma read_pods_frame:
  assumes ext: "\<And>a. a < length s \<Longrightarrow> lookup s' a = lookup s a"
    and rd: "read_pods s a = Some ps"
  shows "read_pods s' a = Some ps"
proof -
  from rd obtain refs where a: "lookup s a = Some (RefList refs)"
    and t: "those (map (read_pod s) refs) = Some ps"
    by (auto simp: read_pods_def split: option.splits obj.splits)
  have "lookup s' a = Some (RefList refs)" using a ext lookup_Some_lt by metis
  moreover have "those (map (read_pod s') refs) = Some ps"
    using t by (rule those_map_frame[rotated]) (rule read_pod_frame[OF ext])
  ultimately show ?thesis by (simp add: read_pods_def)
qed

lemma read_history_those_frame:
  assumes ext: "\<And>a. a < length s \<Longrightarrow> lookup s' a = lookup s a"
    and t: "those (map (read_pods s) refs) = Some logged"
  shows "those (map (read_pods s') refs) = Some logged"
  using t by (rule those_map_frame[rotated]) (rule read_pods_frame[OF ext])

lemma py_slice_from_last:
  assumes "1 \<le> m"
  shows "py_slice_from xs (- m) = drop (length xs - nat m) xs"
  using assms by (simp add: py_slice_from_def py_bound_def Let_def nat_diff_distrib max_def)

lemma drop_append_short: "n \<le> length xs \<Longrightarrow> drop n xs @ ys = drop n (xs @ ys)"
  by simp

lemma save_to_history_fifo:
  assumes "1 \<le> max_items"
  shows "save_to_history max_items stored now pods =
           drop (Suc (length stored) - nat max_items) (stored @ [\<lparr>timestamp = now, pods_of = pods\<rparr>])"
  using assms by (simp add: save_to_history_def Let_def py_slice_from_last)

lemma save_all_fifo:
  assumes "1 \<le> max_items" and "entries \<noteq> []"
  shows "save_all max_items stored entries =
           drop (length stored + length entries - nat max_items)
             (stored @ map (\<lambda>(now, pods). \<lparr>timestamp = now, pods_of = pods\<rparr>) entries)"
  using assms(2)
proof (induction entries arbitrary: stored)
  case Nil
  then show ?case by simp
next
  case (Cons e entries)
  obtain now pods where e: "e = (now, pods)" by (cases e)
  let ?one = "save_to_history max_items stored now pods"
  let ?mk = "\<lambda>(now, pods). \<lparr>timestamp = now, pods_of = pods\<rparr>"
  have one: "?one = drop (Suc (length stored) - nat max_items) (stored @ [?mk e])"
    by (simp add: e save_to_history_fifo[OF assms(1)])
  show ?case
  proof (cases "entries = []")
    case True
    then show ?thesis using one by (simp add: e)
  next
    case False
    define d where "d = Suc (length stored) - nat max_items"
    define k where "k = length ?one + length entries - nat max_items"
    have one': "?one = drop d (stored @ [?mk e])" using one by (simp add: d_def)
    have d_le: "d \<le> length (stored @ [?mk e])" by (simp add: d_def)
    have app: "?one @ map ?mk entries = drop d (stored @ map ?mk (e # entries))"
      unfolding one' drop_append_short[OF d_le] by simp
    have "length ?one = Suc (length stored) - d" unfolding one' by simp
    then have kd: "k + d = length stored + length (e # entries) - nat max_items"
      using assms(1) by (simp add: k_def d_def) arith
    have "save_all max_items stored (e # entries) = save_all max_items ?one entries"
      by (simp add: e)
    also have "\<dots> = drop k (?one @ map ?mk entries)"
      unfolding k_def by (rule Cons.IH[OF False])
    also have "\<dots> = drop (k + d) (stored @ map ?mk (e # entries))"
      unfolding app by (rule drop_drop)
    finally show ?thesis unfolding kd .
  qed
qed

section \<open>Conservation\<close>

text \<open>
  C1. For every participant list and every \<open>3 \<le> target_size \<le> max_size\<close>, the players of
  the pods that \<open>create_pods\<close> returns are, as a multiset, exactly the participants: none
  is lost and none is duplicated. The same holds for \<open>_calculate_pod_distribution\<close>
  whichever path it takes, and for the sequential fallback \<open>_simple_distribution\<close> called
  on its own, which covers its remainder-merge branch; each of them returns.
\<close>

theorem create_pods_conservation:
  assumes "3 \<le> target_size" and "target_size \<le> max_size"
    and "mset (shuffle players) = mset players"
  shows "(\<exists>pods. create_pods shuffle history players target_size max_size =
                   Some (Inr (pods, if players = [] then history else history @ [pods])) \<and>
                 (\<Sum>p\<leftarrow>pods. mset (pplayers p)) = mset players) \<and>
         (\<exists>pods. calculate_pod_distribution players target_size max_size = Some (Inr pods) \<and>
                 (\<Sum>p\<leftarrow>pods. mset (pplayers p)) = mset players) \<and>
         (\<exists>pods. simple_distribution players target_size max_size = Some pods \<and>
                 (\<Sum>p\<leftarrow>pods. mset (pplayers p)) = mset players)"
proof (intro conjI)
  have m: "max_size \<noteq> 0" and t: "1 \<le> target_size" using assms by simp_all
  have sum: "(\<Sum>p\<leftarrow>pods. mset (pplayers p)) = mset (concat (map pplayers pods))" for pods
    by (simp add: mset_concat comp_def)
  show "\<exists>pods. create_pods shuffle history players target_size max_size =
                   Some (Inr (pods, if players = [] then history else history @ [pods])) \<and>
                 (\<Sum>p\<leftarrow>pods. mset (pplayers p)) = mset players"
  proof (cases "players = []")
    case True
    then show ?thesis by (simp add: create_pods_def)
  next
    case False
    have c: "max 3 (min target_size max_size) = target_size" using assms by simp
    obtain r where "calculate_pod_distribution (shuffle players) target_size max_size = Some (Inr r)"
      "concat (map pplayers r) = shuffle players"
      using calculate_conserves[OF m t] by blast
    then show ?thesis using False assms(3)
      by (simp add: create_pods_def c sum)
  qed
  show "\<exists>pods. calculate_pod_distribution players target_size max_size = Some (Inr pods) \<and>
                 (\<Sum>p\<leftarrow>pods. mset (pplayers p)) = mset players"
    using calculate_conserves[OF m t, of players] by (auto simp: sum)
  show "\<exists>pods. simple_distribution players target_size max_size = Some pods \<and>
                 (\<Sum>p\<leftarrow>pods. mset (pplayers p)) = mset players"
    using simple_distribution_returns[OF t, of players max_size] by (auto simp: sum)
qed

theorem create_pods_conservation_witness:
  "(3::int) \<le> 3 \<and> (3::int) \<le> 4 \<and>
   mset (rev [''ann'', ''bob'', ''cy'', ''di'', ''ed'']) = mset [''ann'', ''bob'', ''cy'', ''di'', ''ed''] \<and>
   (\<exists>pods. create_pods rev [] [''ann'', ''bob'', ''cy'', ''di'', ''ed''] 3 4 = Some (Inr (pods, [pods])) \<and>
           (\<Sum>p\<leftarrow>pods. mset (pplayers p)) = mset [''ann'', ''bob'', ''cy'', ''di'', ''ed'']) \<and>
   (\<exists>pods. calculate_pod_distribution [''ann'', ''bob'', ''cy'', ''di'', ''ed''] 3 4 = Some (Inr pods) \<and>
           (\<Sum>p\<leftarrow>pods. mset (pplayers p)) = mset [''ann'', ''bob'', ''cy'', ''di'', ''ed'']) \<and>
   (\<exists>pods. simple_distribution [''ann'', ''bob'', ''cy'', ''di'', ''ed''] 3 4 = Some pods \<and>
           (\<Sum>p\<leftarrow>pods. mset (pplayers p)) = mset [''ann'', ''bob'', ''cy'', ''di'', ''ed''])"
  using create_pods_conservation [of 3 4 rev "[''ann'', ''bob'', ''cy'', ''di'', ''ed'']" "[]"]
  by simp

section \<open>Order of the search\<close>


section \<open>The first candidate is accepted\<close>

text \<open>
  C5. For a non-empty participant list of length \<open>n\<close> and \<open>max_size \<ge> 3\<close>, the sizes the
  balanced loop cuts for the first candidate \<open>k = ceil(n / max_size)\<close> add up to at least
  \<open>n\<close> (the final \<open>current_index\<close>), so this candidate is accepted: the search returns its
  pods, which are \<open>k\<close> many and not the empty list, so that the test \<open>if not pods\<close> fails
  and \<open>_simple_distribution\<close> is not called; \<open>create_pods\<close> returns these pods, whatever
  the target size.
\<close>

theorem first_candidate_accepted:
  assumes "players \<noteq> []" and "3 \<le> max_size" and "mset (shuffle players) = mset players"
  shows "\<exists>pods current_index.
           candidate (shuffle players) max_size ((int (length players) + max_size - 1) div max_size)
             = (pods, current_index) \<and>
           int (length players) \<le> current_index \<and>
           try_counts (shuffle players) max_size
             [(int (length players) + max_size - 1) div max_size..
              (int (length players) + max 3 (min target_size max_size) - 1)
                 div max 3 (min target_size max_size)] = pods \<and>
           pods \<noteq> [] \<and>
           int (length pods) = (int (length players) + max_size - 1) div max_size \<and>
           create_pods shuffle history players target_size max_size =
             Some (Inr (pods, history @ [pods]))"
proof -
  let ?sp = "shuffle players"
  let ?n = "int (length players)"
  let ?t = "max 3 (min target_size max_size)"
  let ?k = "(?n + max_size - 1) div max_size"
  have len: "length ?sp = length players" using assms(3) by (rule mset_eq_length)
  have sp: "?sp \<noteq> []" using assms(1) len by auto
  have n1: "1 \<le> ?n" using assms(1) by (cases players) simp_all
  have t: "3 \<le> ?t" "?t \<le> max_size" using assms(2) by simp_all
  have k1: "1 \<le> ?k" using ceil_div_facts(1)[OF n1, of max_size] assms(2) by simp
  have acc: "?n \<le> snd (candidate ?sp max_size ?k)"
    and cnt: "int (length (fst (candidate ?sp max_size ?k))) = ?k"
    using candidate_first[OF sp assms(2)] len by simp_all
  have ne: "fst (candidate ?sp max_size ?k) \<noteq> []" using cnt k1 by auto
  have "?k \<le> (?n + ?t - 1) div ?t" using ceil_div_antimono[OF n1, of ?t max_size] t by simp
  then have ks: "[?k..(?n + ?t - 1) div ?t] = ?k # [?k + 1..(?n + ?t - 1) div ?t]"
    by (simp add: upto_rec1)
  have tc: "try_counts ?sp max_size [?k..(?n + ?t - 1) div ?t] = fst (candidate ?sp max_size ?k)"
    unfolding ks using k1 acc len by simp
  have "calculate_pod_distribution ?sp ?t max_size = Some (Inr (fst (candidate ?sp max_size ?k)))"
    using tc ne t assms(2) len by (simp add: calculate_pod_distribution_def Let_def)
  then have "create_pods shuffle history players target_size max_size =
        Some (Inr (fst (candidate ?sp max_size ?k), history @ [fst (candidate ?sp max_size ?k)]))"
    using assms(1) by (simp add: create_pods_def Let_def)
  then show ?thesis using acc tc ne cnt
    by (intro exI[of _ "fst (candidate ?sp max_size ?k)"] exI[of _ "snd (candidate ?sp max_size ?k)"]) simp
qed


theorem first_candidate_accepted_witness:
  "[''ann'', ''bob'', ''cy'', ''di'', ''ed''] \<noteq> [] \<and> (3::int) \<le> 4 \<and>
   mset (rev [''ann'', ''bob'', ''cy'', ''di'', ''ed'']) = mset [''ann'', ''bob'', ''cy'', ''di'', ''ed''] \<and>
   (\<exists>pods current_index.
      candidate (rev [''ann'', ''bob'', ''cy'', ''di'', ''ed'']) 4 2 = (pods, current_index) \<and>
      5 \<le> current_index \<and>
      try_counts (rev [''ann'', ''bob'', ''cy'', ''di'', ''ed'']) 4 [2..2] = pods \<and>
      pods \<noteq> [] \<and> int (length pods) = 2 \<and>
      create_pods rev [] [''ann'', ''bob'', ''cy'', ''di'', ''ed''] 7 4 = Some (Inr (pods, [pods])))"
proof -
  let ?ps = "[''ann'', ''bob'', ''cy'', ''di'', ''ed'']"
  have h1: "?ps \<noteq> []" and h2: "(3::int) \<le> 4" and h3: "mset (rev ?ps) = mset ?ps" by simp_all
  have k: "((5::int) + 4 - 1) div 4 = 2" by simp
  have m: "((5::int) + max 3 (min 7 4) - 1) div max 3 (min 7 4) = 2" by simp
  have n: "int (length ?ps) = 5" by simp
  have a: "[] @ [pods] = [pods]" for pods :: "pod list" by simp
  note t = first_candidate_accepted[where shuffle = rev and players = "?ps" and max_size = 4
      and target_size = 7 and history = "[]", OF h1 h2 h3]
  show ?thesis using h1 h2 h3 t unfolding n k m a by blast
qed

section \<open>Size bounds on the balanced path\<close>

text \<open>
  C2 says that every pod of an accepted candidate has between 3 and \<open>max_size\<close> players.
  The loop clamps the size it asks for into that range (its comment: ``Ensure pod size is
  within valid range''), but the slice it takes ends with the list, and a candidate is
  accepted as soon as the sizes asked for reach the number of players. With five players
  and target and maximum size 4 the only candidate is 2 pods: the sizes 3 and 2 become 3
  and 3, the second slice holds the two players left, and the candidate is accepted. The
  pods come from the balanced search (\<open>try_counts\<close>), not from the fallback.
\<close>

theorem balanced_search_undersized_pod:
  "create_pods id [] [''ann'', ''bob'', ''cy'', ''di'', ''ed''] 4 4 =
     Some (Inr ([\<lparr>pid = 1, pplayers = [''ann'', ''bob'', ''cy''], psize = 3\<rparr>,
                 \<lparr>pid = 2, pplayers = [''di'', ''ed''], psize = 2\<rparr>],
                [[\<lparr>pid = 1, pplayers = [''ann'', ''bob'', ''cy''], psize = 3\<rparr>,
                  \<lparr>pid = 2, pplayers = [''di'', ''ed''], psize = 2\<rparr>]])) \<and>
   try_counts [''ann'', ''bob'', ''cy'', ''di'', ''ed''] 4 [2..2] =
     [\<lparr>pid = 1, pplayers = [''ann'', ''bob'', ''cy''], psize = 3\<rparr>,
      \<lparr>pid = 2, pplayers = [''di'', ''ed''], psize = 2\<rparr>]"
proof -
  let ?ps = "[''ann'', ''bob'', ''cy'', ''di'', ''ed'']"
  have c: "candidate ?ps 4 2 =
     ([\<lparr>pid = 1, pplayers = [''ann'', ''bob'', ''cy''], psize = 3\<rparr>,
       \<lparr>pid = 2, pplayers = [''di'', ''ed''], psize = 2\<rparr>], 6)"
    by code_simp
  have t: "try_counts ?ps 4 [2..2] =
     [\<lparr>pid = 1, pplayers = [''ann'', ''bob'', ''cy''], psize = 3\<rparr>,
      \<lparr>pid = 2, pplayers = [''di'', ''ed''], psize = 2\<rparr>]"
    by (simp add: upto_rec1 c)
  have "calculate_pod_distribution ?ps 4 4 =
     Some (Inr [\<lparr>pid = 1, pplayers = [''ann'', ''bob'', ''cy''], psize = 3\<rparr>,
                \<lparr>pid = 2, pplayers = [''di'', ''ed''], psize = 2\<rparr>])"
    by (simp add: calculate_pod_distribution_def Let_def c)
  then show ?thesis using t by (simp add: create_pods_def Let_def)
qed

section \<open>The remainder in the sequential distribution\<close>

text \<open>
  C3. In the loop of \<open>_simple_distribution\<close>, when fewer than 3 participants remain at
  index \<open>i\<close> and a pod exists already: if the last pod's players and the remainder
  together do not exceed \<open>max_size\<close>, the remainder is appended to the last pod and the
  loop ends; otherwise one more pod is emitted that holds exactly the remainder (its size is
  below 3) and the loop ends. Either way all remaining participants \<open>players[i:]\<close> are
  placed and the function returns.
\<close>

theorem fallback_remainder:
  assumes "pods \<noteq> []" and "0 \<le> i" and "i < int (length players)"
    and "int (length players) - i < 3"
  shows "simple_loop players target_size max_size pods pod_id i =
           (if int (length (pplayers (last pods))) + (int (length players) - i) \<le> max_size
            then Some (butlast pods @
                   [(last pods)\<lparr>pplayers := pplayers (last pods) @ drop (nat i) players,
                                psize := int (length (pplayers (last pods))) + (int (length players) - i)\<rparr>])
            else Some (pods @
                   [\<lparr>pid = pod_id, pplayers = drop (nat i) players,
                     psize = int (length players) - i\<rparr>]))"
proof -
  let ?rem = "int (length players) - i"
  have rem: "0 < ?rem" using assms(3) by simp
  have sl: "py_slice players i (i + ?rem) = drop (nat i) players"
    using assms(2,3) by (simp add: py_slice_nonneg)
  have len: "int (length (drop (nat i) players)) = ?rem" using assms(2,3) by simp
  have np: "new_pod players pod_id i ?rem =
              \<lparr>pid = pod_id, pplayers = drop (nat i) players, psize = ?rem\<rparr>"
    unfolding new_pod_def Let_def sl len ..
  show ?thesis
  proof (cases "int (length (pplayers (last pods))) + ?rem \<le> max_size")
    case True
    have "extend_last pods (py_slice_from players i) =
            butlast pods @
              [(last pods)\<lparr>pplayers := pplayers (last pods) @ drop (nat i) players,
                           psize := int (length (pplayers (last pods))) + ?rem\<rparr>]"
      using assms(2,3) by (simp add: extend_last_def Let_def py_slice_from_nonneg)
    then show ?thesis using True assms
      by (subst simple_loop.simps) (simp add: Let_def)
  next
    case False
    have "simple_loop players target_size max_size (pods @ [new_pod players pod_id i ?rem])
            (pod_id + 1) (i + ?rem) = Some (pods @ [new_pod players pod_id i ?rem])"
      by (rule simple_loop_done) simp
    then show ?thesis using False assms rem
      by (subst simple_loop.simps) (simp add: Let_def np)
  qed
qed

theorem fallback_remainder_witness:
  "[\<lparr>pid = 1, pplayers = [''ann'', ''bob'', ''cy''], psize = 3\<rparr>] \<noteq> [] \<and> (0::int) \<le> 3 \<and>
   3 < int (length [''ann'', ''bob'', ''cy'', ''di'', ''ed'']) \<and>
   int (length [''ann'', ''bob'', ''cy'', ''di'', ''ed'']) - 3 < 3 \<and>
   simple_loop [''ann'', ''bob'', ''cy'', ''di'', ''ed''] 3 4
     [\<lparr>pid = 1, pplayers = [''ann'', ''bob'', ''cy''], psize = 3\<rparr>] 2 3 =
     Some [\<lparr>pid = 1, pplayers = [''ann'', ''bob'', ''cy''], psize = 3\<rparr>,
           \<lparr>pid = 2, pplayers = [''di'', ''ed''], psize = 2\<rparr>] \<and>
   simple_loop [''ann'', ''bob'', ''cy'', ''di'', ''ed''] 3 5
     [\<lparr>pid = 1, pplayers = [''ann'', ''bob'', ''cy''], psize = 3\<rparr>] 2 3 =
     Some [\<lparr>pid = 1, pplayers = [''ann'', ''bob'', ''cy'', ''di'', ''ed''], psize = 5\<rparr>]"
proof -
  let ?ps = "[''ann'', ''bob'', ''cy'', ''di'', ''ed'']"
  let ?pods = "[\<lparr>pid = 1, pplayers = [''ann'', ''bob'', ''cy''], psize = 3\<rparr>]"
  have h1: "?pods \<noteq> []" and h2: "(0::int) \<le> 3" and h3: "3 < int (length ?ps)"
    and h4: "int (length ?ps) - 3 < 3" by simp_all
  have emit: "simple_loop ?ps 3 4 ?pods 2 3 =
     Some [\<lparr>pid = 1, pplayers = [''ann'', ''bob'', ''cy''], psize = 3\<rparr>,
           \<lparr>pid = 2, pplayers = [''di'', ''ed''], psize = 2\<rparr>]"
    by (subst fallback_remainder[OF h1 h2 h3 h4]) simp
  have merge: "simple_loop ?ps 3 5 ?pods 2 3 =
     Some [\<lparr>pid = 1, pplayers = [''ann'', ''bob'', ''cy'', ''di'', ''ed''], psize = 5\<rparr>]"
    by (subst fallback_remainder[OF h1 h2 h3 h4]) simp
  show ?thesis using h1 h2 h3 h4 emit merge by blast
qed

section \<open>Totality and clamping\<close>

text \<open>
  C6 as stated, for every integer \<open>max_size\<close>, fails: \<open>min_pods\<close> is computed by a division
  by \<open>max_size\<close>, and with \<open>max_size = 0\<close> and a participant the call raises
  \<open>ZeroDivisionError\<close>.
\<close>

theorem create_pods_zero_max_counterexample:
  "create_pods id [] [''ann'', ''bob'', ''cy''] 4 0 = Some (Inl ZeroDivisionError)"
  by (simp add: create_pods_def calculate_pod_distribution_def Let_def)

text \<open>
  C6, amended. For every \<open>max_size\<close> other than 0, every integer \<open>target_size\<close> and every
  participant list, \<open>create_pods\<close> returns pods (it neither raises nor runs forever) and
  appends them to the history when the list is not empty. The target size is never
  rejected: the call behaves as with \<open>max(3, min(target_size, max_size))\<close>, which lies in
  \<open>[3, max_size]\<close> when \<open>max_size \<ge> 3\<close> and is 3 otherwise. An empty list gives the empty
  result for every \<open>max_size\<close>.
\<close>

theorem create_pods_total:
  assumes "max_size \<noteq> 0"
  shows "(\<exists>pods. create_pods shuffle history players target_size max_size =
                  Some (Inr (pods, if players = [] then history else history @ [pods]))) \<and>
         create_pods shuffle history players target_size max_size =
           create_pods shuffle history players (max 3 (min target_size max_size)) max_size \<and>
         (if 3 \<le> max_size
          then 3 \<le> max 3 (min target_size max_size) \<and> max 3 (min target_size max_size) \<le> max_size
          else max 3 (min target_size max_size) = 3) \<and>
         create_pods shuffle history [] target_size max_size = Some (Inr ([], history))"
proof (intro conjI)
  show "\<exists>pods. create_pods shuffle history players target_size max_size =
                  Some (Inr (pods, if players = [] then history else history @ [pods]))"
  proof (cases "players = []")
    case True
    then show ?thesis by (simp add: create_pods_def)
  next
    case False
    have "1 \<le> max 3 (min target_size max_size)" by simp
    from calculate_conserves[OF assms this, of "shuffle players"] obtain r where
      "calculate_pod_distribution (shuffle players) (max 3 (min target_size max_size)) max_size
         = Some (Inr r)" by blast
    then show ?thesis using False by (simp add: create_pods_def Let_def)
  qed
  have "max 3 (min (max 3 (min target_size max_size)) max_size) = max 3 (min target_size max_size)"
    by simp
  then show "create_pods shuffle history players target_size max_size =
           create_pods shuffle history players (max 3 (min target_size max_size)) max_size"
    by (simp add: create_pods_def Let_def)
  show "if 3 \<le> max_size
          then 3 \<le> max 3 (min target_size max_size) \<and> max 3 (min target_size max_size) \<le> max_size
          else max 3 (min target_size max_size) = 3"
    by simp
  show "create_pods shuffle history [] target_size max_size = Some (Inr ([], history))"
    by (simp add: create_pods_def)
qed

theorem create_pods_total_witness:
  "(-1::int) \<noteq> 0 \<and>
   (\<exists>pods. create_pods rev [] [''ann'', ''bob'', ''cy'', ''di''] 9 (-1) = Some (Inr (pods, [pods]))) \<and>
   create_pods rev [] [''ann'', ''bob'', ''cy'', ''di''] 9 (-1) =
     create_pods rev [] [''ann'', ''bob'', ''cy'', ''di''] 3 (-1)"
proof -
  have h: "(-1::int) \<noteq> 0" by simp
  note t = create_pods_total[OF h, where shuffle = rev and history = "[]"
      and players = "[''ann'', ''bob'', ''cy'', ''di'']" and target_size = 9]
  have a: "[] @ [pods] = [pods]" for pods :: "pod list" by simp
  have m: "max 3 (min 9 (-1)) = (3::int)" by simp
  have e: "([''ann'', ''bob'', ''cy'', ''di''] = []) = False" by simp
  show ?thesis using h t unfolding m e if_False a by blast
qed

section \<open>Empty input\<close>

text \<open>
  C8. With an empty participant list \<open>create_pods\<close> returns the empty pod list at once,
  for every target and maximum size: nothing is raised, and the history is left as it was.
\<close>

theorem create_pods_empty:
  "create_pods shuffle history [] target_size max_size = Some (Inr ([], history))"
  by (simp add: create_pods_def)

section \<open>Statistics\<close>

text \<open>
  C7. For every pod list \<open>get_statistics\<close> returns, and raises nothing: the participant
  total is the sum of the pods' sizes, the pod count the number of pods, the average the
  total divided by the pod count, and 0 for the empty list (nothing is divided then); for
  a pod list that is not empty, the minimum and the maximum are the least and the greatest
  pod size. For pods of the sizes 4, 3 and 5 the result is total 12, 3 pods, average 4,
  minimum 3 and maximum 5.
\<close>

theorem get_statistics_correct:
  "get_statistics pods =
     Inr (if pods = [] then
            \<lparr>total_pods = 0, total_players = 0, avg_pod_size = 0,
             min_pod_size = None, max_pod_size = None, pod_sizes = None\<rparr>
          else
            \<lparr>total_pods = int (length pods), total_players = sum_list (map psize pods),
             avg_pod_size = real_of_int (sum_list (map psize pods)) / real (length pods),
             min_pod_size = Some (Min (set (map psize pods))),
             max_pod_size = Some (Max (set (map psize pods))),
             pod_sizes = Some (map psize pods)\<rparr>) \<and>
   (map psize pods = [4, 3, 5] \<longrightarrow>
      get_statistics pods =
        Inr \<lparr>total_pods = 3, total_players = 12, avg_pod_size = 4,
             min_pod_size = Some 3, max_pod_size = Some 5, pod_sizes = Some [4, 3, 5]\<rparr>)"
proof -
  have gen: "get_statistics pods =
     Inr (if pods = [] then
            \<lparr>total_pods = 0, total_players = 0, avg_pod_size = 0,
             min_pod_size = None, max_pod_size = None, pod_sizes = None\<rparr>
          else
            \<lparr>total_pods = int (length pods), total_players = sum_list (map psize pods),
             avg_pod_size = real_of_int (sum_list (map psize pods)) / real (length pods),
             min_pod_size = Some (Min (set (map psize pods))),
             max_pod_size = Some (Max (set (map psize pods))),
             pod_sizes = Some (map psize pods)\<rparr>)"
  proof (cases "pods = []")
    case True
    then show ?thesis by (simp add: get_statistics_def)
  next
    case False
    then have "map psize pods \<noteq> []" by simp
    then show ?thesis using False
      by (simp add: get_statistics_def Let_def py_truediv_def py_min_Min py_max_Max)
  qed
  have "get_statistics pods =
        Inr \<lparr>total_pods = 3, total_players = 12, avg_pod_size = 4,
             min_pod_size = Some 3, max_pod_size = Some 5, pod_sizes = Some [4, 3, 5]\<rparr>"
    if s: "map psize pods = [4, 3, 5]"
  proof -
    from s have ne: "pods \<noteq> []" and len: "length pods = 3"
      by (auto dest: arg_cong[where f = length])
    show ?thesis unfolding gen using ne by (simp add: s len)
  qed
  with gen show ?thesis by blast
qed

theorem get_statistics_correct_witness:
  "map psize
     [\<lparr>pid = 1, pplayers = [''ann'', ''bob'', ''cy'', ''di''], psize = 4\<rparr>,
      \<lparr>pid = 2, pplayers = [''ed'', ''flo'', ''gus''], psize = 3\<rparr>,
      \<lparr>pid = 3, pplayers = [''hal'', ''ida'', ''jo'', ''kim'', ''lee''], psize = 5\<rparr>] = [4, 3, 5] \<and>
   get_statistics
     [\<lparr>pid = 1, pplayers = [''ann'', ''bob'', ''cy'', ''di''], psize = 4\<rparr>,
      \<lparr>pid = 2, pplayers = [''ed'', ''flo'', ''gus''], psize = 3\<rparr>,
      \<lparr>pid = 3, pplayers = [''hal'', ''ida'', ''jo'', ''kim'', ''lee''], psize = 5\<rparr>] =
     Inr \<lparr>total_pods = 3, total_players = 12, avg_pod_size = 4,
          min_pod_size = Some 3, max_pod_size = Some 5, pod_sizes = Some [4, 3, 5]\<rparr>"
proof -
  let ?pods = "[\<lparr>pid = 1, pplayers = [''ann'', ''bob'', ''cy'', ''di''], psize = 4\<rparr>,
      \<lparr>pid = 2, pplayers = [''ed'', ''flo'', ''gus''], psize = 3\<rparr>,
      \<lparr>pid = 3, pplayers = [''hal'', ''ida'', ''jo'', ''kim'', ''lee''], psize = 5\<rparr>]"
  have h: "map psize ?pods = [4, 3, 5]" by simp
  from get_statistics_correct[of ?pods] h show ?thesis by blast
qed

section \<open>The copy that get\_history returns\<close>

text \<open>
  C9 as stated fails: \<open>self.history.copy()\<close> copies the outer list only. In the example
  store the list returned (at 4) holds the same reference as the log, to the pod list
  at 2; a caller who takes that entry from the returned list and clears it has emptied the
  assignment in the internal log as well.
\<close>

theorem get_history_shares_entries_counterexample:
  "read_history history_example 3 =
     Some [[\<lparr>pid = 1, pplayers = [''ann'', ''bob'', ''cy''], psize = 3\<rparr>]] \<and>
   get_history history_example 3 = Some (4, history_example @ [RefList [2]]) \<and>
   list_item (history_example @ [RefList [2]]) 4 0 = Some 2 \<and>
   read_history (list_clear (history_example @ [RefList [2]]) 2) 3 = Some [[]]"
  by (simp add: history_example_def read_history_def read_pods_def read_pod_def lookup_def
      get_history_def list_copy_def alloc_def list_item_def list_clear_def list_assign_def)

text \<open>
  C9, amended. \<open>get_history\<close> returns a new list object, other than the internal one, that
  reads as the same log; the internal log is unchanged by the call, and whatever the caller
  puts in place of the content of the returned list (by \<open>append\<close>, \<open>clear\<close>, deletion or
  assignment of items), the internal log still reads as before. Nothing is said of the pod
  lists and \<open>Pod\<close> objects the entries refer to: they are shared.
\<close>

theorem get_history_copies_outer_list:
  assumes "read_history s history = Some logged"
  shows "\<exists>r s'. get_history s history = Some (r, s') \<and> r \<noteq> history \<and>
           read_history s' r = Some logged \<and> read_history s' history = Some logged \<and>
           (\<forall>refs. read_history (list_assign s' r refs) history = Some logged)"
proof -
  from assms obtain es where h: "lookup s history = Some (RefList es)"
    and t: "those (map (read_pods s) es) = Some logged"
    by (auto simp: read_history_def split: option.splits obj.splits)
  have lt: "history < length s" using h by (rule lookup_Some_lt)
  let ?r = "length s" and ?s' = "s @ [RefList es]"
  have g: "get_history s history = Some (?r, ?s')"
    by (simp add: get_history_def list_copy_def alloc_def h)
  have ext: "lookup ?s' a = lookup s a" if "a < length s" for a
    using that by (simp add: lookup_def nth_append)
  have ext2: "lookup (list_assign ?s' ?r refs) a = lookup s a" if "a < length s" for a refs
    using that by (simp add: list_assign_def lookup_def nth_append)
  have r: "lookup ?s' ?r = Some (RefList es)" by (simp add: lookup_def)
  have "read_history ?s' ?r = Some logged"
    using read_history_those_frame[OF ext t] by (simp add: read_history_def r)
  moreover have "read_history ?s' history = Some logged"
    using read_history_those_frame[OF ext t] ext[OF lt] h by (simp add: read_history_def)
  moreover have "read_history (list_assign ?s' ?r refs) history = Some logged" for refs
    using read_history_those_frame[OF ext2 t, of refs] ext2[OF lt, of refs] h
    by (simp add: read_history_def)
  ultimately show ?thesis using g lt by (intro exI[of _ ?r] exI[of _ ?s']) auto
qed

theorem get_history_copies_outer_list_witness:
  "read_history history_example 3 =
     Some [[\<lparr>pid = 1, pplayers = [''ann'', ''bob'', ''cy''], psize = 3\<rparr>]] \<and>
   (\<exists>r s'. get_history history_example 3 = Some (r, s') \<and> r \<noteq> 3 \<and>
      read_history s' r = Some [[\<lparr>pid = 1, pplayers = [''ann'', ''bob'', ''cy''], psize = 3\<rparr>]] \<and>
      read_history (list_clear s' r) 3 =
        Some [[\<lparr>pid = 1, pplayers = [''ann'', ''bob'', ''cy''], psize = 3\<rparr>]])"
proof -
  have h: "read_history history_example 3 =
     Some [[\<lparr>pid = 1, pplayers = [''ann'', ''bob'', ''cy''], psize = 3\<rparr>]]"
    by (simp add: history_example_def read_history_def read_pods_def read_pod_def lookup_def)
  from get_history_copies_outer_list[OF h] show ?thesis
    using h unfolding list_clear_def by blast
qed

section \<open>The bound on the persisted history\<close>

text \<open>
  C10 says that the persisted history never holds more than \<open>max_history_items\<close>
  entries, the oldest being dropped first. For a limit of at least 1 the code does this
  (\<open>save_all_fifo\<close> above). For the limit 0 it does not: the length test
  \<open>len(history) > max_items\<close> holds, but the slice \<open>history[-max_items:]\<close> is then
  \<open>history[0:]\<close>, the whole list, so that after three saves all three entries are stored.
\<close>

theorem save_to_history_zero_limit:
  "save_all 0 [] [(''t1'', []), (''t2'', []), (''t3'', [])] =
     [\<lparr>timestamp = ''t1'', pods_of = []\<rparr>, \<lparr>timestamp = ''t2'', pods_of = []\<rparr>,
      \<lparr>timestamp = ''t3'', pods_of = []\<rparr>]"
  by (simp add: save_to_history_def Let_def py_slice_from_def py_bound_def)

end
